theory Spec2Isabelle
  imports Complex_Main
begin

section \<open>Numbers and strings of the host language\<close>

text \<open>
  The program is a single React component, \<^verbatim>\<open>src/App.tsx\<close>. Its numbers are
  JavaScript numbers, that is IEEE doubles. The finite ones are modelled as rationals.
  \<^verbatim>\<open>toWords\<close> is called with the integers between 0 and 999; there its comparisons,
  \<^verbatim>\<open>%\<close> and \<^verbatim>\<open>Math.floor\<close> are exact, and its quotients by 10 and 100 are taken
  exactly: they are only used under \<^verbatim>\<open>Math.floor\<close>, and rounding them first gives the
  same floor (\<open>floor_rounded_quotient\<close> below). The product in \<^verbatim>\<open>randomTarget\<close> has a
  fractional factor, and is rounded to the nearest double as the machine does (\<open>fl\<close>
  below). \<^verbatim>\<open>NaN\<close> and the infinities are outside the type; \<^verbatim>\<open>toWords\<close> sends them
  to its fallback at the first guard (\<^verbatim>\<open>!Number.isFinite(n)\<close>).
\<close>

type_synonym number = rat

definition Math_floor :: "number \<Rightarrow> number" where
  "Math_floor x = of_int \<lfloor>x\<rfloor>"

text \<open>The remainder operator \<^verbatim>\<open>x % y\<close>: the quotient is truncated towards zero.\<close>

definition js_rem :: "number \<Rightarrow> number \<Rightarrow> number" where
  "js_rem x y = x - y * of_int (if 0 \<le> x / y then \<lfloor>x / y\<rfloor> else \<lceil>x / y\<rceil>)"

text \<open>
  \<^verbatim>\<open>xs[i]\<close> on an array: the element when \<open>i\<close> is an integer index inside the array,
  \<^verbatim>\<open>undefined\<close> (here \<open>None\<close>) for every other number, fractions included.
\<close>

definition js_index :: "'a list \<Rightarrow> number \<Rightarrow> 'a option" where
  "js_index xs i =
     (if i = of_int \<lfloor>i\<rfloor> \<and> 0 \<le> i \<and> i < of_nat (length xs) then Some (xs ! nat \<lfloor>i\<rfloor>) else None)"

text \<open>A value spliced into a template literal: \<^verbatim>\<open>undefined\<close> becomes the text "undefined".\<close>

definition tpl :: "string option \<Rightarrow> string" where
  "tpl v = (case v of None \<Rightarrow> ''undefined'' | Some s \<Rightarrow> s)"

text \<open>
  What a function declared to return a string hands back: a string built by the function,
  \<^verbatim>\<open>String(n)\<close> of a number (kept symbolic: the rendering of an arbitrary double is not
  modelled), or \<^verbatim>\<open>undefined\<close> from an array read that missed.
\<close>

datatype phrase = Words string | NumberString number | Undefined

definition ret :: "string option \<Rightarrow> phrase" where
  "ret v = (case v of None \<Rightarrow> Undefined | Some s \<Rightarrow> Words s)"

section \<open>Rounding to doubles\<close>

text \<open>
  The exponent of a positive number: the \<open>e\<close> with \<open>2\<^sup>e \<le> x < 2\<^sup>e\<^sup>+\<^sup>1\<close>.
\<close>

function ilog2 :: "number \<Rightarrow> int" where
  "ilog2 x =
     (if x \<le> 0 then 0
      else if 2 \<le> x then ilog2 (x / 2) + 1
      else if x < 1 then ilog2 (x * 2) - 1
      else 0)"
  by pat_completeness auto
termination
proof (relation "measure (\<lambda>x. 2 * nat \<lceil>1 / x\<rceil> + nat \<lfloor>x\<rfloor>)")
  show "wf (measure (\<lambda>x::rat. 2 * nat \<lceil>1 / x\<rceil> + nat \<lfloor>x\<rfloor>))" by simp
next
  fix x :: rat
  assume a: "\<not> x \<le> 0" "2 \<le> x"
  have c1: "\<lceil>1 / (x / 2)\<rceil> = 1" using a by (intro ceiling_unique) simp_all
  have c2: "\<lceil>1 / x\<rceil> = 1" using a by (intro ceiling_unique) simp_all
  have "x / 2 \<le> x - 1" using a by simp
  then have "\<lfloor>x / 2\<rfloor> \<le> \<lfloor>x - 1\<rfloor>" by (rule floor_mono)
  then have f: "\<lfloor>x / 2\<rfloor> < \<lfloor>x\<rfloor>" by simp
  have "0 \<le> \<lfloor>x / 2\<rfloor>" using a by simp
  with f have "nat \<lfloor>x / 2\<rfloor> < nat \<lfloor>x\<rfloor>" by linarith
  then show "(x / 2, x) \<in> measure (\<lambda>x. 2 * nat \<lceil>1 / x\<rceil> + nat \<lfloor>x\<rfloor>)"
    using c1 c2 by simp
next
  fix x :: rat
  assume a: "\<not> x \<le> 0" "\<not> 2 \<le> x" "x < 1"
  let ?c = "\<lceil>1 / x\<rceil>"
  have "1 < 1 / x" using a by simp
  then have c2: "2 \<le> ?c" by (simp add: less_ceiling_iff) 
  have "1 / x \<le> of_int ?c" by (rule le_of_int_ceiling)
  then have "1 / (x * 2) \<le> of_int ?c / 2" by simp
  also have "\<dots> \<le> of_int (?c - 1)" using c2 by simp
  finally have le: "1 / (x * 2) \<le> of_int (?c - 1)" .
  have "\<lceil>1 / (x * 2)\<rceil> \<le> ?c - 1" by (rule ceiling_le[OF le])
  moreover have "0 < \<lceil>1 / (x * 2)\<rceil>" using a by simp
  ultimately have c: "nat \<lceil>1 / (x * 2)\<rceil> + 1 \<le> nat ?c" by linarith
  have "\<lfloor>x * 2\<rfloor> \<le> 1" using a by (simp add: floor_le_iff)
  then have f: "nat \<lfloor>x * 2\<rfloor> \<le> 1" by linarith
  have "\<lfloor>x\<rfloor> = 0" using a by (intro floor_unique) simp_all
  then show "(x * 2, x) \<in> measure (\<lambda>x. 2 * nat \<lceil>1 / x\<rceil> + nat \<lfloor>x\<rfloor>)"
    using c f by simp
qed

declare ilog2.simps [simp del]

text \<open>The nearest integer, the even one of the two when they are equally near.\<close>

definition rne :: "number \<Rightarrow> int" where
  "rne y =
     (let f = \<lfloor>y\<rfloor>; r = y - of_int f
      in if r < 1 / 2 then f else if 1 / 2 < r then f + 1 else if even f then f else f + 1)"

text \<open>
  The double nearest to \<open>x\<close>, ties to even: doubles in the binade of exponent \<open>e\<close> are
  the multiples of \<open>2\<^sup>e\<^sup>-\<^sup>5\<^sup>2\<close>, and those of the subnormal range the multiples of
  \<open>2\<^sup>-\<^sup>1\<^sup>0\<^sup>7\<^sup>4\<close>. Results of magnitude \<open>2\<^sup>1\<^sup>0\<^sup>2\<^sup>4\<close> and more, which the machine turns
  into an infinity, do not occur in the program.
\<close>

definition fl :: "number \<Rightarrow> number" where
  "fl x =
     (if x = 0 then 0
      else
        (let e = ilog2 \<bar>x\<bar>; q = 2 powi (max (e - 52) (- 1074))
         in sgn x * (of_int (rne (\<bar>x\<bar> / q)) * q)))"

text \<open>A number is a double when rounding leaves it as it is.\<close>

definition is_double :: "number \<Rightarrow> bool" where
  "is_double x = (fl x = x \<and> \<bar>x\<bar> < 2 ^ 1024)"

text \<open>The product \<^verbatim>\<open>x * y\<close> of two doubles.\<close>

definition js_mul :: "number \<Rightarrow> number \<Rightarrow> number" where
  "js_mul x y = fl (x * y)"

section \<open>The verbalizer\<close>

definition ones :: "string list" where
  "ones = [''zero'', ''one'', ''two'', ''three'', ''four'', ''five'', ''six'', ''seven'',
           ''eight'', ''nine'', ''ten'', ''eleven'', ''twelve'', ''thirteen'', ''fourteen'',
           ''fifteen'', ''sixteen'', ''seventeen'', ''eighteen'', ''nineteen'']"

definition tens :: "string list" where
  "tens = ['''', '''', ''twenty'', ''thirty'', ''forty'', ''fifty'', ''sixty'', ''seventy'',
           ''eighty'', ''ninety'']"

text \<open>\<^verbatim>\<open>toWords\<close>, lines 105 to 123, branch by branch.\<close>

definition toWords :: "number \<Rightarrow> phrase" where
  "toWords n =
     (if n < 0 \<or> n > 999 then NumberString n
      else if n < 20 then ret (js_index ones n)
      else if n < 100 then
        (let t = Math_floor (n / 10); r = js_rem n 10
         in if r \<noteq> 0 then Words (tpl (js_index tens t) @ '' '' @ tpl (js_index ones r))
            else ret (js_index tens t))
      else
        (let h = Math_floor (n / 100); r = js_rem n 100;
             head = tpl (js_index ones h) @ '' hundred''
         in if r = 0 then Words head
            else if r < 20 then Words (head @ '' and '' @ tpl (js_index ones r))
            else
              (let t = Math_floor (r / 10); u = js_rem r 10
               in if u \<noteq> 0
                  then Words (head @ '' and '' @ tpl (js_index tens t) @ '' '' @ tpl (js_index ones u))
                  else Words (head @ '' and '' @ tpl (js_index tens t)))))"

text \<open>
  The array reads \<^verbatim>\<open>toWords\<close> performs on \<open>n\<close>, in program order, each as the table
  and the index it is read at. The branches are those of \<open>toWords\<close>.
\<close>

definition toWords_reads :: "number \<Rightarrow> (string list \<times> number) list" where
  "toWords_reads n =
     (if n < 0 \<or> n > 999 then []
      else if n < 20 then [(ones, n)]
      else if n < 100 then
        (let t = Math_floor (n / 10); r = js_rem n 10
         in if r \<noteq> 0 then [(tens, t), (ones, r)] else [(tens, t)])
      else
        (let h = Math_floor (n / 100); r = js_rem n 100
         in if r = 0 then [(ones, h)]
            else if r < 20 then [(ones, h), (ones, r)]
            else
              (let t = Math_floor (r / 10); u = js_rem r 10
               in if u \<noteq> 0 then [(ones, h), (tens, t), (ones, u)]
                  else [(ones, h), (tens, t)])))"

definition in_bounds :: "string list \<times> number \<Rightarrow> bool" where
  "in_bounds rd = (js_index (fst rd) (snd rd) \<noteq> None)"

subsection \<open>The verbalizer as the specification words it\<close>

text \<open>
  The specification's algorithm (section 4.1), on natural numbers: a literal word table
  for 0 to 19, a tens word for 20 to 90, and the three ranges.
\<close>

definition spec_ones :: "nat \<Rightarrow> string" where
  "spec_ones k =
     (if k = 0 then ''zero'' else if k = 1 then ''one'' else if k = 2 then ''two''
      else if k = 3 then ''three'' else if k = 4 then ''four'' else if k = 5 then ''five''
      else if k = 6 then ''six'' else if k = 7 then ''seven'' else if k = 8 then ''eight''
      else if k = 9 then ''nine'' else if k = 10 then ''ten'' else if k = 11 then ''eleven''
      else if k = 12 then ''twelve'' else if k = 13 then ''thirteen''
      else if k = 14 then ''fourteen'' else if k = 15 then ''fifteen''
      else if k = 16 then ''sixteen'' else if k = 17 then ''seventeen''
      else if k = 18 then ''eighteen'' else ''nineteen'')"

definition spec_tens :: "nat \<Rightarrow> string" where
  "spec_tens k =
     (if k = 2 then ''twenty'' else if k = 3 then ''thirty'' else if k = 4 then ''forty''
      else if k = 5 then ''fifty'' else if k = 6 then ''sixty'' else if k = 7 then ''seventy''
      else if k = 8 then ''eighty'' else ''ninety'')"

definition spec_verbalize :: "nat \<Rightarrow> string" where
  "spec_verbalize n =
     (if n < 20 then spec_ones n
      else if n < 100 then
        spec_tens (n div 10) @ (if n mod 10 \<noteq> 0 then '' '' @ spec_ones (n mod 10) else '''')
      else
        spec_ones (n div 100) @ '' hundred'' @
        (if n mod 100 = 0 then ''''
         else if n mod 100 < 20 then '' and '' @ spec_ones (n mod 100)
         else '' and '' @ spec_tens (n mod 100 div 10) @
              (if n mod 100 mod 10 \<noteq> 0 then '' '' @ spec_ones (n mod 100 mod 10) else '''')))"

section \<open>Decimal strings and the target generator\<close>

definition digit_chars :: string where
  "digit_chars = ''0123456789''"

definition digit_char :: "nat \<Rightarrow> char" where
  "digit_char d = digit_chars ! d"

text \<open>
  \<^verbatim>\<open>String(k)\<close> for a natural number \<open>k\<close>: its decimal digits, most significant first,
  a single \<^verbatim>\<open>0\<close> for zero.
\<close>

function String_of_nat :: "nat \<Rightarrow> string" where
  "String_of_nat k =
     (if k < 10 then [digit_char k] else String_of_nat (k div 10) @ [digit_char (k mod 10)])"
  by pat_completeness auto
termination
  by (relation "measure (\<lambda>k. k)") auto

declare String_of_nat.simps [simp del]

text \<open>
  \<^verbatim>\<open>String(x)\<close> where the program applies it to the result of \<^verbatim>\<open>Math.floor(...) + min\<close>,
  a non-negative integer.
\<close>

definition String_of :: "number \<Rightarrow> string" where
  "String_of x = String_of_nat (nat \<lfloor>x\<rfloor>)"

text \<open>
  \<^verbatim>\<open>randomTarget\<close>, lines 139 to 144. The second argument is the value \<^verbatim>\<open>Math.random()\<close>
  returns, a double \<open>u\<close> with \<open>0 \<le> u < 1\<close>. Its product with the range width is the
  rounded product of doubles; the powers of ten, the width, \<^verbatim>\<open>Math.floor\<close> and the sum
  with \<open>min\<close> are integers below \<open>2\<^sup>5\<^sup>3\<close> and exact. The number of digits is a positive
  integer: the level control offers 1, 2 and 3.
\<close>

definition randomTarget :: "nat \<Rightarrow> number \<Rightarrow> string" where
  "randomTarget digits u =
     (if digits = 1 then String_of (Math_floor (js_mul u 10))
      else
        (let min = 10 ^ (digits - 1); max = 10 ^ digits - 1
         in String_of (Math_floor (js_mul u (max - min + 1)) + min)))"

text \<open>
  \<^verbatim>\<open>Number(tgt)\<close> on a string of decimal digits, which is what every target is: the
  value of a digit is its character code less that of \<^verbatim>\<open>0\<close>.
\<close>

definition digit_val :: "char \<Rightarrow> nat" where
  "digit_val c = of_char c - 48"

definition Number_of :: "string \<Rightarrow> nat" where
  "Number_of s = foldl (\<lambda>a c. 10 * a + digit_val c) 0 s"

text \<open>\<^verbatim>\<open>speechTextForTarget\<close>, lines 235 to 244.\<close>

definition digit_map :: "(string \<times> string) list" where
  "digit_map = [(''0'', ''zero''), (''1'', ''one''), (''2'', ''two''), (''3'', ''three''),
                (''4'', ''four''), (''5'', ''five''), (''6'', ''six''), (''7'', ''seven''),
                (''8'', ''eight''), (''9'', ''nine'')]"

definition speechTextForTarget :: "string \<Rightarrow> nat \<Rightarrow> phrase" where
  "speechTextForTarget tgt lvl =
     (let n = of_nat (Number_of tgt)
      in if lvl \<ge> 2 then toWords n
         else (case map_of digit_map tgt of Some w \<Rightarrow> Words w | None \<Rightarrow> Words tgt))"

section \<open>The component state\<close>

datatype status = Idle | Listening | Correct | Incorrect | Complete

record trial_record =
  r_target :: string
  r_response :: string
  r_correct :: bool
  r_timeMs :: number

text \<open>
  The values of the \<^verbatim>\<open>useState\<close> cells (lines 211 to 225) at one render. Every handler
  is a closure over one such render.
\<close>

record render =
  level :: nat
  totalTrials :: nat
  trialIdx :: nat
  target :: string
  input :: string
  status :: status
  results :: "trial_record list"
  volume :: number
  score :: nat
  hadErrorThisTarget :: bool
  showHint :: bool
  showGuide :: bool

text \<open>What the component sends to the speech and audio services.\<close>

datatype audio = Speak phrase number | Cancel | CorrectChime | ErrorTone

text \<open>
  A pending \<^verbatim>\<open>setTimeout\<close> callback, with the render whose values it closes over:
  the start after a reset (line 279), the advance after a correct answer (lines 339 to
  348) and the retry after a wrong one (lines 353 to 358). The file never calls
  \<^verbatim>\<open>clearTimeout\<close>: a timer leaves the list only by firing.
\<close>

datatype timer = StartTimer render | AdvanceTimer render | RetryTimer render

text \<open>
  The whole session: the current state, the pending timers, \<^verbatim>\<open>trialStartRef\<close>, the
  outputs so far, and the \<^verbatim>\<open>trialIdx\<close> seen by the registered \<^verbatim>\<open>keydown\<close> listener.
  That listener is replaced only after a render that changed one of \<^verbatim>\<open>status, input,
  target, level, totalTrials, volume, hadErrorThisTarget\<close> (the dependency list of line
  377), so it agrees with the current render on those; of the values its handlers read,
  only \<^verbatim>\<open>trialIdx\<close> can be out of date.
\<close>

record world =
  cur :: render
  keyIdx :: nat
  timers :: "timer list"
  trialStartRef :: "number option"
  out :: "audio list"

text \<open>What the environment supplies to one step: \<^verbatim>\<open>Math.random()\<close> and \<^verbatim>\<open>performance.now()\<close>.\<close>

record env =
  random :: number
  now :: number

datatype source = Click | Key

text \<open>
  The render a handler closes over: the current one for a button, the listener's for a
  key. From their closure the handlers and timer callbacks read \<^verbatim>\<open>status\<close>,
  \<^verbatim>\<open>input\<close>, \<^verbatim>\<open>target\<close>, \<^verbatim>\<open>level\<close>, \<^verbatim>\<open>totalTrials\<close>, \<^verbatim>\<open>volume\<close>,
  \<^verbatim>\<open>hadErrorThisTarget\<close> and \<^verbatim>\<open>trialIdx\<close>, nothing else.
\<close>

definition closure :: "source \<Rightarrow> world \<Rightarrow> render" where
  "closure src w = (case src of Click \<Rightarrow> cur w | Key \<Rightarrow> (cur w)\<lparr>trialIdx := keyIdx w\<rparr>)"

definition key_deps :: "render \<Rightarrow> status \<times> string \<times> string \<times> nat \<times> nat \<times> number \<times> bool" where
  "key_deps r = (status r, input r, target r, level r, totalTrials r, volume r, hadErrorThisTarget r)"

text \<open>
  The render after a batch of state updates: the \<^verbatim>\<open>keydown\<close> effect (lines 363 to 377)
  runs again, and the listener picks up the new render, exactly when a dependency differs
  from the previous render \<open>prev\<close>.
\<close>

definition commit :: "render \<Rightarrow> world \<Rightarrow> world" where
  "commit prev w = (if key_deps (cur w) = key_deps prev then w else w\<lparr>keyIdx := trialIdx (cur w)\<rparr>)"

definition speak :: "phrase \<Rightarrow> number \<Rightarrow> world \<Rightarrow> world" where
  "speak phr vol w = w\<lparr>out := out w @ [Speak phr (max 0 (min 1 vol))]\<rparr>"

section \<open>The handlers\<close>

text \<open>
  Each handler takes the render \<open>c\<close> it closes over and the session it updates. A setter
  called with a value writes what the closure computed; a setter called with a function
  updates the current value.
\<close>

text \<open>\<^verbatim>\<open>startNextTrial\<close>, lines 247 to 266.\<close>

definition startNextTrial :: "render \<Rightarrow> nat \<Rightarrow> env \<Rightarrow> world \<Rightarrow> world" where
  "startNextTrial c lvl e w =
     (if trialIdx c \<ge> totalTrials c
      then w\<lparr>cur := (cur w)\<lparr>showGuide := False, status := Complete\<rparr>\<rparr>
      else
        (let newIdx = trialIdx c + 1;
             t = randomTarget lvl (random e)
         in speak (speechTextForTarget t lvl) (volume c)
              (w\<lparr>cur := (cur w)\<lparr>trialIdx := newIdx, target := t, input := [],
                     status := Listening, showHint := False, hadErrorThisTarget := False\<rparr>,
                  trialStartRef := Some (now e)\<rparr>)))"

text \<open>\<^verbatim>\<open>resetAll\<close>, lines 268 to 280.\<close>

definition resetAll :: "render \<Rightarrow> world \<Rightarrow> world" where
  "resetAll c w =
     w\<lparr>cur := (cur w)\<lparr>results := [], score := 0, trialIdx := 0, status := Idle, input := [],
            showHint := False, showGuide := False, hadErrorThisTarget := False\<rparr>,
       out := out w @ [Cancel],
       timers := timers w @ [StartTimer c]\<rparr>"

text \<open>\<^verbatim>\<open>backspace\<close>, \<^verbatim>\<open>clear\<close> and \<^verbatim>\<open>listen\<close>, lines 282 to 297.\<close>

definition backspace :: "render \<Rightarrow> world \<Rightarrow> world" where
  "backspace c w =
     (if status c \<noteq> Listening then w
      else if length (input c) = 0 then w
      else w\<lparr>cur := (cur w)\<lparr>input := butlast (input (cur w))\<rparr>\<rparr>)"

definition clear :: "render \<Rightarrow> world \<Rightarrow> world" where
  "clear c w = (if status c \<noteq> Listening then w else w\<lparr>cur := (cur w)\<lparr>input := []\<rparr>\<rparr>)"

definition listen :: "render \<Rightarrow> world \<Rightarrow> world" where
  "listen c w =
     (if target c = [] then w
      else speak (speechTextForTarget (target c) (level c)) (volume c) w)"

text \<open>The effect on a change of level, lines 300 to 311.\<close>

definition levelEffect :: "world \<Rightarrow> world" where
  "levelEffect w =
     w\<lparr>cur := (cur w)\<lparr>results := [], score := 0, trialIdx := 0, status := Idle, input := [],
            showHint := False, hadErrorThisTarget := False\<rparr>,
       out := out w @ [Cancel]\<rparr>"

text \<open>The effect on a change of the number of trials, lines 314 to 319.\<close>

definition totalTrialsEffect :: "render \<Rightarrow> world \<Rightarrow> world" where
  "totalTrialsEffect c w =
     (if status c \<noteq> Idle \<or> length (results c) > 0 \<or> trialIdx c > 0 then resetAll c w else w)"

text \<open>
  \<^verbatim>\<open>handleDigit\<close>, lines 322 to 361. The two timer callbacks are the constructors
  \<open>AdvanceTimer c\<close> and \<open>RetryTimer c\<close>; their bodies are in \<open>fire\<close>.
\<close>

definition handleDigit :: "render \<Rightarrow> char \<Rightarrow> env \<Rightarrow> world \<Rightarrow> world" where
  "handleDigit c d e w =
     (if status c \<noteq> Listening then w
      else if length (input c) \<ge> length (target c) then w
      else
        (let next = input c @ [d];
             w1 = w\<lparr>cur := (cur w)\<lparr>input := next\<rparr>\<rparr>;
             need = length (target c)
         in if length next = need then
              (let correct = (next = target c);
                   started = (case trialStartRef w of Some t \<Rightarrow> t | None \<Rightarrow> now e);
                   timeMs = now e - started;
                   w2 = w1\<lparr>cur := (cur w1)\<lparr>
                          results := results (cur w1) @
                            [\<lparr>r_target = target c, r_response = next, r_correct = correct,
                              r_timeMs = timeMs\<rparr>],
                          status := (if correct then Correct else Incorrect)\<rparr>\<rparr>
               in if correct
                  then w2\<lparr>out := out w2 @ [CorrectChime],
                          timers := timers w2 @ [AdvanceTimer c]\<rparr>
                  else w2\<lparr>out := out w2 @ [ErrorTone],
                          cur := (cur w2)\<lparr>hadErrorThisTarget := True\<rparr>,
                          timers := timers w2 @ [RetryTimer c]\<rparr>)
            else w1))"

text \<open>A timer callback running, on the render \<open>c\<close> it was created in.\<close>

fun fire :: "timer \<Rightarrow> env \<Rightarrow> world \<Rightarrow> world" where
  "fire (StartTimer c) e w = startNextTrial c (level c) e w"
| "fire (AdvanceTimer c) e w =
     (let w1 = (if \<not> hadErrorThisTarget c then w\<lparr>cur := (cur w)\<lparr>score := score (cur w) + 1\<rparr>\<rparr> else w)
      in if trialIdx c \<ge> totalTrials c
         then w1\<lparr>cur := (cur w1)\<lparr>showGuide := False, status := Complete\<rparr>\<rparr>
         else startNextTrial c (level c) e w1)"
| "fire (RetryTimer c) e w =
     speak (speechTextForTarget (target c) (level c)) (volume c)
       (w\<lparr>cur := (cur w)\<lparr>input := [], status := Listening\<rparr>\<rparr>)"

section \<open>Events\<close>

text \<open>
  One step is one event handled to completion: its state updates are applied together and
  the component renders again (\<open>commit\<close>). A button runs the handler of the current
  render; a key runs the handler of the registered listener. A disabled or absent button
  gives no event, which is the step that changes nothing. A change of level or of the
  number of trials renders twice: once with the new setting, and once more after the
  effect that depends on it has run. \<open>Fire i\<close> is the \<open>i\<close>-th pending timer running; the
  order in which pending timers run is left open, since real time is not part of the
  model.
\<close>

datatype event =
    Digit source char
  | Backspace source
  | ClearInput source
  | Listen source
  | Next source
  | Reset source
  | Restart
  | Close
  | Hint source
  | Guide source
  | SetLevel nat
  | SetTotalTrials nat
  | SetVolume number
  | Fire nat

fun step :: "env \<Rightarrow> event \<Rightarrow> world \<Rightarrow> world" where
  "step e (Digit src d) w =
     commit (cur w) (if d \<in> set digit_chars then handleDigit (closure src w) d e w else w)"
| "step e (Backspace src) w = commit (cur w) (backspace (closure src w) w)"
| "step e (ClearInput src) w = commit (cur w) (clear (closure src w) w)"
| "step e (Listen src) w = commit (cur w) (listen (closure src w) w)"
| "step e (Next src) w =
     commit (cur w)
       (if src = Click \<and> status (cur w) = Complete then w
        else startNextTrial (closure src w) (level (closure src w)) e w)"
| "step e (Reset src) w = commit (cur w) (resetAll (closure src w) w)"
| "step e Restart w =
     commit (cur w)
       (if status (cur w) = Complete
        then resetAll (cur w) (w\<lparr>cur := (cur w)\<lparr>status := Idle\<rparr>\<rparr>) else w)"
| "step e Close w =
     commit (cur w)
       (if status (cur w) = Complete then w\<lparr>cur := (cur w)\<lparr>status := Idle\<rparr>\<rparr> else w)"
| "step e (Hint src) w =
     commit (cur w)
       (if src = Click \<and> target (cur w) = [] then w
        else w\<lparr>cur := (cur w)\<lparr>showHint := True\<rparr>\<rparr>)"
| "step e (Guide src) w =
     commit (cur w)
       (if src = Click \<and> target (cur w) = [] then w
        else w\<lparr>cur := (cur w)\<lparr>showGuide := \<not> showGuide (cur w)\<rparr>\<rparr>)"
| "step e (SetLevel l) w =
     (if l = level (cur w) then w
      else
        (let w1 = commit (cur w) (w\<lparr>cur := (cur w)\<lparr>level := l\<rparr>\<rparr>)
         in commit (cur w1) (levelEffect w1)))"
| "step e (SetTotalTrials n) w =
     (if n = totalTrials (cur w) then w
      else
        (let w1 = commit (cur w) (w\<lparr>cur := (cur w)\<lparr>totalTrials := n\<rparr>\<rparr>)
         in commit (cur w1) (totalTrialsEffect (cur w1) w1)))"
| "step e (SetVolume v) w = commit (cur w) (w\<lparr>cur := (cur w)\<lparr>volume := v\<rparr>\<rparr>)"
| "step e (Fire i) w =
     commit (cur w)
       (if i < length (timers w)
        then fire (timers w ! i) e (w\<lparr>timers := take i (timers w) @ drop (Suc i) (timers w)\<rparr>)
        else w)"

fun run :: "world \<Rightarrow> (env \<times> event) list \<Rightarrow> world" where
  "run w [] = w"
| "run w ((e, ev) # evs) = run (step e ev w) evs"

text \<open>
  The component as mounted: the \<^verbatim>\<open>useState\<close> defaults, after the level effect has run
  once (every effect runs after the first render; the one on \<^verbatim>\<open>totalTrials\<close> finds
  nothing to reset).
\<close>

definition mount :: render where
  "mount = \<lparr>level = 1, totalTrials = 10, trialIdx = 0, target = [], input = [], status = Idle,
            results = [], volume = 1, score = 0, hadErrorThisTarget = False,
            showHint = False, showGuide = False\<rparr>"

definition initial :: world where
  "initial = levelEffect \<lparr>cur = mount, keyIdx = 0, timers = [], trialStartRef = None, out = []\<rparr>"

section \<open>Concrete sessions\<close>

text \<open>
  Sessions used as examples below. Each event comes with the time of the clock and the
  value the random source returns during it, each of them a double; a timer fires at the
  time it was set for.
\<close>

definition timed :: "number \<Rightarrow> number \<Rightarrow> event \<Rightarrow> env \<times> event" where
  "timed t u x = (\<lparr>random = u, now = t\<rparr>, x)"

text \<open>The double nearest to three tenths, which is what the literal \<^verbatim>\<open>0.3\<close> denotes.\<close>

definition double_0_3 :: number where
  "double_0_3 = 5404319552844595 / 18014398509481984"

definition retry_trace :: "(env \<times> event) list" where
  "retry_trace =
     [timed 0 0 (SetLevel 2),
      timed 1000 (27/64) (Next Click),
      timed 3000 0 (Digit Click CHR ''5''),
      timed 3400 0 (Digit Click CHR ''7''),
      timed 5400 0 (Fire 0),
      timed 7000 0 (Digit Click CHR ''4''),
      timed 7300 0 (Digit Click CHR ''7'')]"

definition idle_world :: world where
  "idle_world = run initial (take 1 retry_trace)"

definition listening_47 :: world where
  "listening_47 = run initial (take 2 retry_trace)"

definition typed_5 :: world where
  "typed_5 = run initial (take 3 retry_trace)"

definition wrong_57 :: world where
  "wrong_57 = run initial (take 4 retry_trace)"

definition reset_trace :: "(env \<times> event) list" where
  "reset_trace =
     [timed 1000 (3/8) (Next Click),
      timed 2000 0 (Digit Click CHR ''3''),
      timed 2500 0 (Reset Click),
      timed 2600 (9/16) (Fire 1)]"

definition after_reset :: world where
  "after_reset = run initial reset_trace"

definition level_change_trace :: "(env \<times> event) list" where
  "level_change_trace =
     [timed 1000 (3/8) (Next Click),
      timed 2000 0 (Digit Click CHR ''3''),
      timed 2500 0 (SetLevel 3)]"

definition after_level_change :: world where
  "after_level_change = run initial level_change_trace"

definition overrun_trace :: "(env \<times> event) list" where
  "overrun_trace =
     [timed 0 0 (SetTotalTrials 25),
      timed 1000 (1/16) (Next Click), timed 2000 (3/16) (Next Click),
      timed 3000 (1/4) (Next Click), timed 4000 (7/16) (Next Click),
      timed 5000 (9/16) (Next Click), timed 6000 (11/16) (Next Click),
      timed 7000 (3/4) (Next Click), timed 8000 (13/16) (Next Click),
      timed 9000 (15/16) (Next Click), timed 10000 (1/16) (Next Click),
      timed 11000 (3/8) (Next Click),
      timed 12000 0 (Digit Click CHR ''3''),
      timed 12500 0 (SetTotalTrials 10),
      timed 12600 0 (Fire 1),
      timed 14000 (3/4) (Fire 0)]"

definition key_trace :: "(env \<times> event) list" where
  "key_trace = [timed 1000 (3/8) (Next Key), timed 2000 (25/64) (Next Key)]"

definition stale_listener :: world where
  "stale_listener = run initial key_trace"

section \<open>Arithmetic of the verbalizer on integers\<close>

lemma floor10: "Math_floor (of_int k / 10) = of_int (k div 10)"
  unfolding Math_floor_def
  using floor_divide_of_int_eq[of k 10, where ?'a = rat] by simp

lemma floor100: "Math_floor (of_int k / 100) = of_int (k div 100)"
  unfolding Math_floor_def
  using floor_divide_of_int_eq[of k 100, where ?'a = rat] by simp

lemma rem10: "0 \<le> k \<Longrightarrow> js_rem (of_int k) 10 = of_int (k mod 10)"
proof -
  assume k: "0 \<le> k"
  have f: "\<lfloor>(of_int k :: rat) / 10\<rfloor> = k div 10"
    using floor_divide_of_int_eq[of k 10, where ?'a = rat] by simp
  have "(0::rat) \<le> of_int k / 10" using k by simp
  then have "js_rem (of_int k) 10 = of_int k - 10 * of_int (k div 10)"
    unfolding js_rem_def using f by simp
  also have "\<dots> = of_int (k - 10 * (k div 10))" by simp
  also have "k - 10 * (k div 10) = k mod 10" by (simp add: minus_mult_div_eq_mod)
  finally show ?thesis .
qed

lemma rem100: "0 \<le> k \<Longrightarrow> js_rem (of_int k) 100 = of_int (k mod 100)"
proof -
  assume k: "0 \<le> k"
  have f: "\<lfloor>(of_int k :: rat) / 100\<rfloor> = k div 100"
    using floor_divide_of_int_eq[of k 100, where ?'a = rat] by simp
  have "(0::rat) \<le> of_int k / 100" using k by simp
  then have "js_rem (of_int k) 100 = of_int k - 100 * of_int (k div 100)"
    unfolding js_rem_def using f by simp
  also have "\<dots> = of_int (k - 100 * (k div 100))" by simp
  also have "k - 100 * (k div 100) = k mod 100" by (simp add: minus_mult_div_eq_mod)
  finally show ?thesis .
qed

lemma index_int:
  "js_index xs (of_int k) = (if 0 \<le> k \<and> k < int (length xs) then Some (xs ! nat k) else None)"
  unfolding js_index_def
  by (auto simp: of_nat_less_iff[where ?'a = rat, symmetric] simp del: of_nat_less_iff)

lemma floor10_nat: "Math_floor (of_nat m / 10) = of_nat (m div 10)"
proof -
  have "int m div 10 = int (m div 10)" by (simp add: zdiv_int)
  then show ?thesis using floor10[of "int m"] by simp
qed

lemma floor100_nat: "Math_floor (of_nat m / 100) = of_nat (m div 100)"
proof -
  have "int m div 100 = int (m div 100)" by (simp add: zdiv_int)
  then show ?thesis using floor100[of "int m"] by simp
qed

lemma rem10_nat: "js_rem (of_nat m) 10 = of_nat (m mod 10)"
proof -
  have "int m mod 10 = int (m mod 10)" by (simp add: zmod_int)
  then show ?thesis using rem10[of "int m"] by simp
qed

lemma rem100_nat: "js_rem (of_nat m) 100 = of_nat (m mod 100)"
proof -
  have "int m mod 100 = int (m mod 100)" by (simp add: zmod_int)
  then show ?thesis using rem100[of "int m"] by simp
qed

lemma index_nat:
  "js_index xs (of_nat k) = (if k < length xs then Some (xs ! k) else None)"
  using index_int[of xs "int k"] by simp

lemma ones_spec: "k < 20 \<Longrightarrow> ones ! k = spec_ones k"
proof -
  assume "k < 20"
  then have "k \<in> {0,1,2,3,4,5,6,7,8,9,10,11,12,13,14,15,16,17,18,19}" by (simp, arith)
  then show ?thesis unfolding ones_def spec_ones_def by (elim insertE emptyE) simp_all
qed

lemma tens_spec: "2 \<le> k \<Longrightarrow> k < 10 \<Longrightarrow> tens ! k = spec_tens k"
proof -
  assume "2 \<le> k" "k < 10"
  then have "k \<in> {2,3,4,5,6,7,8,9}" by auto
  then show ?thesis unfolding tens_def spec_tens_def by (elim insertE emptyE) simp_all
qed

lemma length_ones: "length ones = 20" by (simp add: ones_def)
lemma length_tens: "length tens = 10" by (simp add: tens_def)

lemma toWords_nat:
  assumes "m \<le> 999"
  shows "toWords (of_nat m) = Words (spec_verbalize m)"
proof -
  consider "m < 20" | "20 \<le> m" "m < 100" | "100 \<le> m" by linarith
  then show ?thesis
  proof cases
    case 1
    then show ?thesis using assms
      by (simp add: toWords_def spec_verbalize_def index_nat length_ones ret_def ones_spec)
  next
    case 2
    then have t: "2 \<le> m div 10" "m div 10 < 10" and r: "m mod 10 < 20" by auto
    have rng: "\<not> (of_nat m :: rat) < 20" "(of_nat m :: rat) < 100" "\<not> (of_nat m :: rat) > 999"
      using 2 assms by (simp_all add: not_less)
    show ?thesis using 2 t r rng
      by (simp add: toWords_def spec_verbalize_def floor10_nat rem10_nat index_nat
          length_ones length_tens ret_def tpl_def ones_spec tens_spec Let_def)
  next
    case 3
    then have h: "m div 100 < 20" using assms by auto
    have r: "m mod 100 < 100" by simp
    have rng: "\<not> (of_nat m :: rat) < 20" "\<not> (of_nat m :: rat) < 100" "\<not> (of_nat m :: rat) > 999"
      using 3 assms by (simp_all add: not_less)
    show ?thesis
    proof (cases "m mod 100 < 20")
      case True
      then show ?thesis using 3 h rng
        by (simp add: toWords_def spec_verbalize_def floor100_nat rem100_nat index_nat
          length_ones length_tens ret_def tpl_def ones_spec Let_def)
    next
      case False
      then have t: "2 \<le> m mod 100 div 10" "m mod 100 div 10 < 10" and u: "m mod 100 mod 10 < 20"
        by auto
      have rr: "\<not> (of_nat (m mod 100) :: rat) < 20" using False by (simp add: not_less)
      show ?thesis using 3 h rng False t u rr
        by (simp add: toWords_def spec_verbalize_def floor100_nat rem100_nat floor10_nat rem10_nat
           index_nat length_ones length_tens ret_def tpl_def ones_spec tens_spec Let_def)
    qed
  qed
qed

lemma spec_ones_nonempty: "spec_ones k \<noteq> []"
  by (simp add: spec_ones_def)

lemma spec_tens_nonempty: "spec_tens k \<noteq> []"
  by (simp add: spec_tens_def)

lemma spec_verbalize_nonempty: "spec_verbalize m \<noteq> []"
  by (simp add: spec_verbalize_def spec_ones_nonempty spec_tens_nonempty)

lemma toWords_reads_nat:
  assumes "m \<le> 999"
  shows "toWords_reads (of_nat m) \<noteq> [] \<and> (\<forall>rd \<in> set (toWords_reads (of_nat m)). in_bounds rd)"
proof -
  have rng: "\<not> (of_nat m :: rat) > 999" using assms by (simp add: not_less)
  consider "m < 20" | "20 \<le> m" "m < 100" | "100 \<le> m" by linarith
  then show ?thesis
  proof cases
    case 1
    then show ?thesis using rng
      by (simp add: toWords_reads_def in_bounds_def index_nat length_ones)
  next
    case 2
    then have t: "m div 10 < 10" and r: "m mod 10 < 20" by auto
    have "\<not> (of_nat m :: rat) < 20" "(of_nat m :: rat) < 100"
      using 2 by (simp_all add: not_less)
    then show ?thesis using t r rng
      by (simp add: toWords_reads_def in_bounds_def floor10_nat rem10_nat index_nat
          length_ones length_tens Let_def)
  next
    case 3
    then have h: "m div 100 < 20" using assms by auto
    have t: "m mod 100 div 10 < 10" and u: "m mod 100 mod 10 < 20" by auto
    have r: "m mod 100 < 20 \<or> \<not> (of_nat (m mod 100) :: rat) < 20"
      by (cases "m mod 100 < 20") (simp_all add: not_less)
    have "\<not> (of_nat m :: rat) < 20" "\<not> (of_nat m :: rat) < 100"
      using 3 by (simp_all add: not_less)
    then show ?thesis using h t u r rng
      by (auto simp add: toWords_reads_def in_bounds_def floor100_nat rem100_nat floor10_nat
          rem10_nat index_nat length_ones length_tens Let_def)
  qed
qed

text \<open>
  The list of reads and the result go together: \<^verbatim>\<open>toWords\<close> can only return
  \<^verbatim>\<open>undefined\<close> through a read that missed.
\<close>

lemma toWords_undefined_read:
  assumes "toWords n = Undefined"
  shows "\<exists>rd \<in> set (toWords_reads n). \<not> in_bounds rd"
  using assms
  by (auto simp add: toWords_def toWords_reads_def in_bounds_def ret_def Let_def
      split: if_splits option.splits)

section \<open>Bounds on rounded products\<close>

lemma ilog2_bounds:
  "0 < x \<Longrightarrow> 2 powi (ilog2 x) \<le> x \<and> x < 2 powi (ilog2 x + 1)"
proof (induction x rule: ilog2.induct)
  case (1 x)
  consider "2 \<le> x" | "x < 1" | "1 \<le> x" "x < 2" by linarith
  then show ?case
  proof cases
    case 1
    then have e: "ilog2 x = ilog2 (x / 2) + 1" using "1.prems" by (subst ilog2.simps) simp
    have ih: "2 powi (ilog2 (x / 2)) \<le> x / 2 \<and> x / 2 < 2 powi (ilog2 (x / 2) + 1)"
      using "1.IH"(1) 1 "1.prems" by simp
    have s1: "(2::rat) powi (ilog2 (x / 2) + 1) = 2 powi (ilog2 (x / 2)) * 2"
      by (rule power_int_add_1) simp
    have s2: "(2::rat) powi (ilog2 (x / 2) + 1 + 1) = 2 powi (ilog2 (x / 2) + 1) * 2"
      by (rule power_int_add_1) simp
    from ih have "2 powi (ilog2 (x / 2)) * 2 \<le> x" "x < 2 powi (ilog2 (x / 2) + 1) * 2"
      by simp_all
    then show ?thesis unfolding e by (simp only: s1 s2)
  next
    case 2
    then have e: "ilog2 x = ilog2 (x * 2) - 1" using "1.prems" by (subst ilog2.simps) simp
    have ih: "2 powi (ilog2 (x * 2)) \<le> x * 2 \<and> x * 2 < 2 powi (ilog2 (x * 2) + 1)"
      using "1.IH"(2) 2 "1.prems" by simp
    have s1: "(2::rat) powi (ilog2 (x * 2)) = 2 powi (ilog2 (x * 2) - 1) * 2"
      using power_int_add_1[of "2::rat" "ilog2 (x * 2) - 1"] by simp
    have s2: "(2::rat) powi (ilog2 (x * 2) + 1) = 2 powi (ilog2 (x * 2) - 1 + 1) * 2"
      using power_int_add_1[of "2::rat" "ilog2 (x * 2)"] by simp
    from ih have "2 powi (ilog2 (x * 2) - 1) * 2 \<le> x * 2"
      "x * 2 < 2 powi (ilog2 (x * 2) - 1 + 1) * 2"
      by (simp_all only: s1[symmetric] s2[symmetric])
    then have "2 powi (ilog2 (x * 2) - 1) \<le> x" "x < 2 powi (ilog2 (x * 2) - 1 + 1)"
      by simp_all
    then show ?thesis unfolding e by simp
  next
    case 3
    then have e: "ilog2 x = 0" using "1.prems" by (subst ilog2.simps) simp
    show ?thesis unfolding e using 3 by simp
  qed
qed

lemma ilog2_less:
  assumes "0 < x" "x < 2 powi a"
  shows "ilog2 x < a"
proof (rule ccontr)
  assume "\<not> ilog2 x < a"
  then have "a \<le> ilog2 x" by simp
  then have "(2::rat) powi a \<le> 2 powi (ilog2 x)" by (intro power_int_increasing) simp_all
  with ilog2_bounds[OF assms(1)] assms(2) show False by linarith
qed

lemma ilog2_eq:
  assumes "2 powi a \<le> x" "x < 2 powi (a + 1)"
  shows "ilog2 x = a"
proof -
  have pos: "0 < x" using assms(1) zero_less_power_int[of "2::rat" a] by linarith
  have "ilog2 x < a + 1" using ilog2_less[OF pos assms(2)] .
  moreover have "a \<le> ilog2 x"
  proof (rule ccontr)
    assume "\<not> a \<le> ilog2 x"
    then have "ilog2 x + 1 \<le> a" by simp
    then have "(2::rat) powi (ilog2 x + 1) \<le> 2 powi a" by (intro power_int_increasing) simp_all
    with ilog2_bounds[OF pos] assms(1) show False by linarith
  qed
  ultimately show ?thesis by simp
qed

lemma rne_bounds: "of_int (rne y) \<le> y + 1 / 2 \<and> y - 1 / 2 \<le> of_int (rne y)"
proof -
  have b: "of_int \<lfloor>y\<rfloor> \<le> y" "y < of_int \<lfloor>y\<rfloor> + 1" by linarith+
  consider "y - of_int \<lfloor>y\<rfloor> < 1 / 2" | "1 / 2 < y - of_int \<lfloor>y\<rfloor>"
    | "y - of_int \<lfloor>y\<rfloor> = 1 / 2" by linarith
  then show ?thesis
  proof cases
    case 1
    then have e: "rne y = \<lfloor>y\<rfloor>" by (simp add: rne_def Let_def)
    show ?thesis unfolding e using b 1 by linarith
  next
    case 2
    then have e: "rne y = \<lfloor>y\<rfloor> + 1" by (simp add: rne_def Let_def)
    have "(of_int (\<lfloor>y\<rfloor> + 1) :: rat) = of_int \<lfloor>y\<rfloor> + 1" by simp
    then show ?thesis unfolding e using b 2 by linarith
  next
    case 3
    then have "rne y = \<lfloor>y\<rfloor> \<or> rne y = \<lfloor>y\<rfloor> + 1" by (simp add: rne_def Let_def)
    moreover have "(of_int (\<lfloor>y\<rfloor> + 1) :: rat) = of_int \<lfloor>y\<rfloor> + 1" by simp
    ultimately have "(of_int (rne y) :: rat) = of_int \<lfloor>y\<rfloor> \<or> (of_int (rne y) :: rat) = of_int \<lfloor>y\<rfloor> + 1"
      by metis
    then show ?thesis using b 3 by linarith
  qed
qed

lemma rne_less:
  assumes "y < of_int K - 1 / 2"
  shows "rne y < K"
proof -
  have "(of_int (rne y) :: rat) < of_int K" using rne_bounds[of y] assms by linarith
  then show ?thesis by simp
qed

lemma rne_nonneg: "0 \<le> y \<Longrightarrow> 0 \<le> rne y"
proof -
  assume "0 \<le> y"
  then have "0 \<le> \<lfloor>y\<rfloor>" by simp
  then show ?thesis unfolding rne_def Let_def by auto
qed

lemma fl_nonneg: "0 \<le> x \<Longrightarrow> 0 \<le> fl x"
proof (cases "x = 0")
  case True
  then show ?thesis by (simp add: fl_def)
next
  case False
  assume "0 \<le> x"
  with False have pos: "0 < x" by simp
  define q :: rat where "q = 2 powi (max (ilog2 x - 52) (- 1074))"
  have q: "0 < q" unfolding q_def by simp
  have "0 \<le> rne (x / q)" using pos q by (intro rne_nonneg) simp
  then have "0 \<le> of_int (rne (x / q)) * q" using q by simp
  then show ?thesis using pos by (simp add: fl_def Let_def q_def)
qed

lemma fl_near:
  assumes "0 < x"
  shows "fl x \<le> x + 2 powi (max (ilog2 x - 52) (- 1074)) / 2"
proof -
  define q :: rat where "q = 2 powi (max (ilog2 x - 52) (- 1074))"
  have q: "0 < q" unfolding q_def by simp
  have "of_int (rne (x / q)) \<le> x / q + 1 / 2" using rne_bounds[of "x / q"] by simp
  then have "of_int (rne (x / q)) * q \<le> (x / q + 1 / 2) * q"
    using q by (intro mult_right_mono) simp_all
  also have "\<dots> = x + q / 2" using q by (simp add: field_simps)
  finally show ?thesis using assms by (simp add: fl_def Let_def q_def)
qed

text \<open>The product of a double below one and a small integer width stays below the width.\<close>

lemma fl_below_width:
  fixes N :: rat
  assumes p: "0 \<le> p" "p \<le> N - N / 2 ^ 53"
    and a: "0 \<le> a" "a \<le> 52"
    and N: "2 powi a + 1 \<le> N" "N < 2 powi (a + 1)"
    and K: "N = of_int K * 2 powi (a - 52)"
  shows "fl p < N"
proof (cases "p = 0")
  case True
  have "0 < N" using N(1) zero_less_power_int[of "2::rat" a] by linarith
  then show ?thesis using True by (simp add: fl_def)
next
  case False
  with p have pos: "0 < p" by simp
  have Npos: "0 < N" using N(1) zero_less_power_int[of "2::rat" a] by linarith
  show ?thesis
  proof (cases "p < 2 powi a")
    case True
    then have e: "ilog2 p < a" using ilog2_less[OF pos] by simp
    then have "max (ilog2 p - 52) (- 1074) \<le> 0" using a by simp
    then have "(2::rat) powi (max (ilog2 p - 52) (- 1074)) \<le> 2 powi 0"
      by (intro power_int_increasing) simp_all
    then have "fl p \<le> p + 1 / 2" using fl_near[OF pos] by simp
    then show ?thesis using True N(1) by linarith
  next
    case False
    then have lo: "2 powi a \<le> p" by simp
    have "0 < N / 2 ^ 53" using Npos by simp
    then have hi: "p < 2 powi (a + 1)" using p(2) N(2) by linarith
    have e: "ilog2 p = a" using ilog2_eq[OF lo hi] .
    define q :: rat where "q = 2 powi (a - 52)"
    have q: "0 < q" unfolding q_def by simp
    have mx: "max (a - 52) (- 1074) = a - 52" using a by simp
    have flp: "fl p = of_int (rne (p / q)) * q"
      using pos by (simp add: fl_def Let_def e mx q_def)
    have "a + 1 = a - 52 + 53" by simp
    then have "(2::rat) powi (a + 1) = 2 powi (a - 52 + 53)" by (simp only:)
    also have "\<dots> = 2 powi (a - 52) * 2 powi 53" by (rule power_int_add) simp
    finally have "(2::rat) powi (a + 1) = 2 powi (a - 52) * 2 powi 53" .
    then have q53: "q * 2 ^ 53 = 2 powi (a + 1)" by (simp add: q_def)
    have "N / 2 ^ 53 / q = N / (q * 2 ^ 53)" by simp
    also have "\<dots> = N / 2 powi (a + 1)" by (simp only: q53)
    finally have frac: "N / 2 ^ 53 / q = N / 2 powi (a + 1)" .
    have "2 powi (a + 1) = 2 * (2::rat) powi a" by (simp add: power_int_add_1')
    then have "(2::rat) powi (a + 1) < 2 * N" using N(1) by linarith
    then have half: "1 / 2 < N / 2 powi (a + 1)"
      using zero_less_power_int[of "2::rat" "a + 1"] by (simp add: field_simps)
    have "p / q \<le> (N - N / 2 ^ 53) / q" by (rule divide_right_mono[OF p(2) less_imp_le[OF q]])
    also have "\<dots> = N / q - N / 2 ^ 53 / q" by (rule diff_divide_distrib)
    also have "N / q = of_int K" using K q by (simp add: q_def)
    finally have "p / q \<le> of_int K - N / 2 powi (a + 1)" by (simp only: frac)
    then have "p / q < of_int K - 1 / 2" using half by linarith
    then have "rne (p / q) < K" by (rule rne_less)
    then have "rne (p / q) \<le> K - 1" by simp
    then have "(of_int (rne (p / q)) :: rat) \<le> of_int (K - 1)" by (simp only: of_int_le_iff)
    then have "of_int (rne (p / q)) * q \<le> of_int (K - 1) * q"
      using q by (intro mult_right_mono) simp_all
    also have "\<dots> = N - q" using K by (simp add: q_def algebra_simps)
    finally show ?thesis using flp q by linarith
  qed
qed

lemma double_below_one:
  assumes "fl u = u" "0 \<le> u" "u < 1"
  shows "u \<le> 1 - 1 / 2 ^ 53"
proof (cases "u = 0")
  case True
  then show ?thesis by simp
next
  case False
  with assms have pos: "0 < u" by simp
  have "u < 2 powi 0" using assms(3) by simp
  then have e: "ilog2 u < 0" by (rule ilog2_less[OF pos])
  show ?thesis
  proof (cases "ilog2 u = - 1")
    case True
    define m where "m = rne (u / 2 powi (- 53))"
    have "max (ilog2 u - 52) (- 1074) = - 53" using True by simp
    then have "fl u = of_int m * 2 powi (- 53)"
      using pos by (simp add: fl_def Let_def m_def)
    then have u: "u = of_int m / 2 ^ 53" using assms(1) by (simp add: power_int_minus_divide)
    then have "(of_int m :: rat) < 2 ^ 53" using assms(3) by (simp add: field_simps)
    then have "(of_int m :: rat) < of_int (2 ^ 53)" by simp
    then have "m < 2 ^ 53" by (simp only: of_int_less_iff)
    then have "m \<le> 2 ^ 53 - 1" by simp
    then have "(of_int m :: rat) \<le> of_int (2 ^ 53 - 1)" by (simp only: of_int_le_iff)
    then have "(of_int m :: rat) \<le> 2 ^ 53 - 1" by simp
    then have "of_int m / 2 ^ 53 \<le> ((2 ^ 53 - 1) / 2 ^ 53 :: rat)"
      by (intro divide_right_mono) simp_all
    then show ?thesis unfolding u by (simp add: diff_divide_distrib)
  next
    case False
    with e have "ilog2 u + 1 \<le> - 1" by simp
    then have "(2::rat) powi (ilog2 u + 1) \<le> 2 powi (- 1)"
      by (intro power_int_increasing) simp_all
    then have "u < 1 / 2" using ilog2_bounds[OF pos] by (simp add: power_int_minus_divide)
    then show ?thesis by simp
  qed
qed

lemma product_below_width:
  assumes "fl u = u" "0 \<le> u" "u < 1" "0 < (N::rat)"
  shows "0 \<le> u * N \<and> u * N \<le> N - N / 2 ^ 53"
proof -
  have "u * N \<le> (1 - 1 / 2 ^ 53) * N"
    using double_below_one[OF assms(1-3)] assms(4) by (intro mult_right_mono) simp_all
  then show ?thesis using assms by (simp add: algebra_simps)
qed

lemma rne_of_int: "rne (of_int z) = z"
  by (simp add: rne_def Let_def)

lemma fl_near_below:
  assumes "0 < x"
  shows "x - 2 powi (max (ilog2 x - 52) (- 1074)) / 2 \<le> fl x"
proof -
  define q :: rat where "q = 2 powi (max (ilog2 x - 52) (- 1074))"
  have q: "0 < q" unfolding q_def by simp
  have flx: "fl x = of_int (rne (x / q)) * q" using assms by (simp add: fl_def Let_def q_def)
  have "x - q / 2 = (x / q - 1 / 2) * q" using q by (simp add: field_simps)
  also have "\<dots> \<le> of_int (rne (x / q)) * q"
    by (rule mult_right_mono) (use rne_bounds[of "x / q"] q in simp_all)
  finally show ?thesis unfolding flx q_def .
qed

lemma fl_of_nat:
  assumes "k < 2 ^ 53"
  shows "fl (of_nat k) = of_nat k"
proof (cases "k = 0")
  case True
  then show ?thesis by (simp add: fl_def)
next
  case False
  then have pos: "0 < (of_nat k :: rat)" by simp
  define e where "e = ilog2 (of_nat k)"
  have "(of_nat k :: rat) < of_nat (2 ^ 53)" using assms by (simp only: of_nat_less_iff)
  then have "(of_nat k :: rat) < 2 powi 53" by simp
  then have e53: "e < 53" unfolding e_def by (rule ilog2_less[OF pos])
  have e0: "0 \<le> e"
  proof (rule ccontr)
    assume "\<not> 0 \<le> e"
    then have "e + 1 \<le> 0" by simp
    then have "(2::rat) powi (e + 1) \<le> 2 powi 0" by (intro power_int_increasing) simp_all
    then have "(of_nat k :: rat) < 1" using ilog2_bounds[OF pos] by (simp add: e_def)
    then show False using False by simp
  qed
  define n where "n = nat (52 - e)"
  have mx: "max (e - 52) (- 1074) = - int n" using e0 e53 by (simp add: n_def)
  have q: "(2::rat) powi (- int n) = 1 / 2 ^ n" by (simp add: power_int_minus_divide)
  have "of_nat k / (1 / 2 ^ n) = (of_int (int k * 2 ^ n) :: rat)" by simp
  then have "rne (of_nat k / (1 / 2 ^ n)) = int k * 2 ^ n" by (simp only: rne_of_int)
  then have "fl (of_nat k) = of_int (int k * 2 ^ n) * (1 / 2 ^ n)"
    using pos by (simp add: fl_def Let_def e_def[symmetric] mx q)
  then show ?thesis by simp
qed

text \<open>
  \<^verbatim>\<open>toWords\<close> takes the floor of a quotient by 10 or by 100 of an integer below 1000.
  The machine rounds the quotient first; the floor is the same.
\<close>

lemma floor_rounded_quotient:
  assumes "m \<le> 999" "d = 10 \<or> d = 100"
  shows "\<lfloor>fl (of_nat m / of_nat d)\<rfloor> = \<lfloor>(of_nat m / of_nat d :: rat)\<rfloor>"
proof -
  have d0: "0 < d" using assms(2) by auto
  define k where "k = m div d"
  define r where "r = m mod d"
  have m: "m = k * d + r" by (simp add: k_def r_def)
  have x: "(of_nat m / of_nat d :: rat) = of_nat k + of_nat r / of_nat d"
    using d0 by (simp add: m field_simps)
  have ex: "\<lfloor>(of_nat m / of_nat d :: rat)\<rfloor> = int k"
    using floor_divide_of_nat_eq[of m d, where ?'a = rat] by (simp add: k_def)
  show ?thesis
  proof (cases "r = 0")
    case True
    have "k \<le> m" by (simp add: k_def)
    then have "k \<le> 999" using assms(1) by simp
    then have "k < 2 ^ 53" by (rule le_less_trans) simp
    then have "fl (of_nat k) = of_nat k" by (rule fl_of_nat)
    then show ?thesis unfolding ex using x True by simp
  next
    case False
    then have r1: "1 \<le> r" by simp
    have rd: "r + 1 \<le> d" using d0 by (simp add: r_def Suc_leI)
    let ?x = "of_nat m / of_nat d :: rat"
    have d100: "(of_nat d :: rat) \<le> 100" "(0::rat) < of_nat d" using assms(2) by auto
    have "1 / 100 \<le> 1 / (of_nat d :: rat)" using d100 by (simp add: field_simps)
    also have "\<dots> \<le> of_nat r / of_nat d" using r1 d100 by (simp add: divide_right_mono)
    finally have lo: "of_nat k + 1 / 100 \<le> ?x" using x by simp
    have "(of_nat (r + 1) :: rat) \<le> of_nat d" using rd by (simp only: of_nat_le_iff)
    then have "(of_nat r :: rat) \<le> of_nat d - 1" by simp
    then have "of_nat r / of_nat d \<le> ((of_nat d - 1) / of_nat d :: rat)"
      using d100 by (intro divide_right_mono) simp_all
    also have "\<dots> = 1 - 1 / of_nat d" using d100 by (simp add: field_simps)
    also have "\<dots> \<le> 1 - 1 / 100" using d100 by (simp add: field_simps)
    finally have hi: "?x \<le> of_nat k + 1 - 1 / 100" using x by simp
    have "(0::rat) \<le> of_nat k" by simp
    with lo have pos: "0 < ?x" by linarith
    have "10 \<le> d" using assms(2) by auto
    then have "k * 10 \<le> k * d" by (rule mult_le_mono2)
    then have "k * 10 \<le> m" using m by linarith
    then have "k \<le> 99" using assms(1) by linarith
    then have "(of_nat k :: rat) \<le> of_nat 99" by (simp only: of_nat_le_iff)
    then have "(of_nat k :: rat) \<le> 99" by simp
    then have "?x < 2 powi 7" using hi by simp
    then have "ilog2 ?x < 7" by (rule ilog2_less[OF pos])
    then have "max (ilog2 ?x - 52) (- 1074) \<le> - 46" by simp
    then have "(2::rat) powi (max (ilog2 ?x - 52) (- 1074)) \<le> 2 powi (- 46)"
      by (intro power_int_increasing) simp_all
    also have "\<dots> \<le> 1 / 100" by (simp add: power_int_minus_divide)
    finally have q: "2 powi (max (ilog2 ?x - 52) (- 1074)) / 2 < (1 / 100 :: rat)" by simp
    have "of_nat k \<le> fl ?x" using fl_near_below[OF pos] lo q by linarith
    moreover have "fl ?x < of_nat k + 1" using fl_near[OF pos] hi q by linarith
    ultimately have "\<lfloor>fl ?x\<rfloor> = int k" by (intro floor_unique) simp_all
    then show ?thesis by (simp only: ex)
  qed
qed

text \<open>
  Every double from 0 up to 1 is a fraction \<open>m / 2\<^sup>n\<close> with \<open>m < 2\<^sup>5\<^sup>3\<close> and
  \<open>n \<le> 1074\<close>, and each such fraction is a double in the sense of \<open>is_double\<close>.
\<close>

lemma fraction_is_double:
  assumes "m < 2 ^ 53" "n \<le> 1074"
  shows "is_double (of_nat m / 2 ^ n)"
proof (cases "m = 0")
  case True
  then show ?thesis by (simp add: is_double_def fl_def)
next
  case False
  let ?x = "of_nat m / 2 ^ n :: rat"
  have pos: "0 < ?x" using False by simp
  have "(of_nat m :: rat) < of_nat (2 ^ 53)" using assms(1) by (simp only: of_nat_less_iff)
  then have m53: "(of_nat m :: rat) < 2 ^ 53" by simp
  then have "?x < 2 ^ 53 / 2 ^ n" by (simp add: divide_strict_right_mono)
  also have "\<dots> = 2 powi (53 - int n)"
    by (simp add: power_int_diff)
  finally have "ilog2 ?x < 53 - int n" by (rule ilog2_less[OF pos])
  then have le: "max (ilog2 ?x - 52) (- 1074) \<le> - int n" using assms(2) by simp
  define j where "j = nat (- int n - max (ilog2 ?x - 52) (- 1074))"
  have j: "max (ilog2 ?x - 52) (- 1074) = - int (n + j)" using le by (simp add: j_def)
  have q: "(2::rat) powi (- int (n + j)) = 1 / 2 ^ (n + j)"
    by (simp only: power_int_minus_divide power_int_of_nat)
  define Q :: rat where "Q = 2 powi (max (ilog2 ?x - 52) (- 1074))"
  have flx: "fl ?x = of_int (rne (?x / Q)) * Q"
    using False by (simp add: fl_def Let_def Q_def)
  have Q: "Q = 1 / 2 ^ (n + j)" unfolding Q_def by (simp only: j q)
  have xq: "?x / Q = of_int (int m * 2 ^ j)" unfolding Q by (simp add: power_add)
  have "fl ?x = of_int (int m * 2 ^ j) * Q" unfolding flx xq by (simp only: rne_of_int)
  then have fx: "fl ?x = ?x" unfolding Q by (simp add: power_add)
  have "(1::rat) \<le> 2 ^ n" by simp
  then have "?x \<le> of_nat m / 1" using pos by (intro divide_left_mono) simp_all
  then have "?x < 2 ^ 53" using m53 by simp
  also have "(2::rat) ^ 53 < 2 ^ 1024" by (rule power_strict_increasing) simp_all
  finally have "\<bar>?x\<bar> < 2 ^ 1024" using pos by simp
  with fx show ?thesis by (simp only: is_double_def simp_thms)
qed

section \<open>Decimal strings\<close>

lemma digit_char_cases:
  assumes "d < 10"
  shows "digit_char d \<in> set digit_chars \<and> digit_val (digit_char d) = d
         \<and> (d \<noteq> 0 \<longrightarrow> digit_char d \<noteq> CHR ''0'')"
proof -
  from assms have "d \<in> {0,1,2,3,4,5,6,7,8,9}" by (simp, arith)
  then show ?thesis
    unfolding digit_char_def digit_chars_def digit_val_def
    by (elim insertE emptyE) simp_all
qed

lemma Number_of_snoc: "Number_of (s @ [c]) = 10 * Number_of s + digit_val c"
  by (simp add: Number_of_def)

lemma Number_of_String_of_nat: "Number_of (String_of_nat k) = k"
proof (induction k rule: String_of_nat.induct)
  case (1 k)
  show ?case
  proof (cases "k < 10")
    case True
    then show ?thesis
      using digit_char_cases[of k] by (simp add: String_of_nat.simps[of k] Number_of_def)
  next
    case False
    then have "Number_of (String_of_nat (k div 10)) = k div 10" using 1 by simp
    moreover have "digit_val (digit_char (k mod 10)) = k mod 10"
      using digit_char_cases[of "k mod 10"] by simp
    ultimately show ?thesis
      using False by (simp add: String_of_nat.simps[of k] Number_of_snoc)
  qed
qed

lemma String_of_nat_digits: "set (String_of_nat k) \<subseteq> set digit_chars"
proof (induction k rule: String_of_nat.induct)
  case (1 k)
  show ?case
  proof (cases "k < 10")
    case True
    then show ?thesis using digit_char_cases[of k] by (simp add: String_of_nat.simps[of k])
  next
    case False
    then show ?thesis
      using 1 digit_char_cases[of "k mod 10"] by (simp add: String_of_nat.simps[of k])
  qed
qed

lemma String_of_nat_1: "k < 10 \<Longrightarrow> String_of_nat k = [digit_char k]"
  by (simp add: String_of_nat.simps[of k])

lemma String_of_nat_2:
  "10 \<le> k \<Longrightarrow> k < 100 \<Longrightarrow> String_of_nat k = [digit_char (k div 10), digit_char (k mod 10)]"
  by (simp add: String_of_nat.simps[of k] String_of_nat_1)

lemma String_of_nat_3:
  "100 \<le> k \<Longrightarrow> k < 1000 \<Longrightarrow>
   String_of_nat k = [digit_char (k div 100), digit_char (k div 10 mod 10), digit_char (k mod 10)]"
  by (simp add: String_of_nat.simps[of k] String_of_nat_2 div_mult2_eq[symmetric])

lemma randomTarget_1:
  assumes "is_double u" "0 \<le> u" "u < 1"
  shows "randomTarget 1 u = String_of_nat (nat \<lfloor>fl (u * 10)\<rfloor>) \<and> nat \<lfloor>fl (u * 10)\<rfloor> \<le> 9"
proof -
  have d: "fl u = u" using assms(1) by (simp add: is_double_def)
  have p: "0 \<le> u * 10 \<and> u * 10 \<le> 10 - 10 / 2 ^ 53"
    by (rule product_below_width[OF d assms(2,3)]) simp
  have "fl (u * 10) < 10"
    by (rule fl_below_width[where a = 3 and K = "10 * 2 ^ 49"]) (use p in simp_all)
  then have "\<lfloor>fl (u * 10)\<rfloor> < 10" by (simp add: floor_less_iff)
  then have "nat \<lfloor>fl (u * 10)\<rfloor> \<le> 9" by linarith
  then show ?thesis by (simp add: randomTarget_def String_of_def Math_floor_def js_mul_def)
qed

lemma randomTarget_2:
  assumes "is_double u" "0 \<le> u" "u < 1"
  shows "randomTarget 2 u = String_of_nat (nat \<lfloor>fl (u * 90)\<rfloor> + 10)
         \<and> nat \<lfloor>fl (u * 90)\<rfloor> + 10 \<le> 99"
proof -
  have d: "fl u = u" using assms(1) by (simp add: is_double_def)
  have p: "0 \<le> u * 90 \<and> u * 90 \<le> 90 - 90 / 2 ^ 53"
    by (rule product_below_width[OF d assms(2,3)]) simp
  have "fl (u * 90) < 90"
    by (rule fl_below_width[where a = 6 and K = "90 * 2 ^ 46"]) (use p in simp_all)
  then have "\<lfloor>fl (u * 90)\<rfloor> < 90" by (simp add: floor_less_iff)
  then have b: "nat \<lfloor>fl (u * 90)\<rfloor> + 10 \<le> 99" by linarith
  have "0 \<le> fl (u * 90)" using p by (intro fl_nonneg) simp
  then have nn: "0 \<le> \<lfloor>fl (u * 90)\<rfloor>" by simp
  have "Math_floor (fl (u * 90)) + 10 = of_int (\<lfloor>fl (u * 90)\<rfloor> + 10)"
    by (simp add: Math_floor_def)
  then have "String_of (Math_floor (fl (u * 90)) + 10) = String_of_nat (nat (\<lfloor>fl (u * 90)\<rfloor> + 10))"
    unfolding String_of_def by (simp only: floor_of_int)
  also have "nat (\<lfloor>fl (u * 90)\<rfloor> + 10) = nat \<lfloor>fl (u * 90)\<rfloor> + 10" using nn by linarith
  finally have "randomTarget 2 u = String_of_nat (nat \<lfloor>fl (u * 90)\<rfloor> + 10)"
    by (simp add: randomTarget_def Let_def js_mul_def)
  with b show ?thesis by blast
qed

lemma randomTarget_3:
  assumes "is_double u" "0 \<le> u" "u < 1"
  shows "randomTarget 3 u = String_of_nat (nat \<lfloor>fl (u * 900)\<rfloor> + 100)
         \<and> nat \<lfloor>fl (u * 900)\<rfloor> + 100 \<le> 999"
proof -
  have d: "fl u = u" using assms(1) by (simp add: is_double_def)
  have p: "0 \<le> u * 900 \<and> u * 900 \<le> 900 - 900 / 2 ^ 53"
    by (rule product_below_width[OF d assms(2,3)]) simp
  have "fl (u * 900) < 900"
    by (rule fl_below_width[where a = 9 and K = "900 * 2 ^ 43"]) (use p in simp_all)
  then have "\<lfloor>fl (u * 900)\<rfloor> < 900" by (simp add: floor_less_iff)
  then have b: "nat \<lfloor>fl (u * 900)\<rfloor> + 100 \<le> 999" by linarith
  have "0 \<le> fl (u * 900)" using p by (intro fl_nonneg) simp
  then have nn: "0 \<le> \<lfloor>fl (u * 900)\<rfloor>" by simp
  have "Math_floor (fl (u * 900)) + 100 = of_int (\<lfloor>fl (u * 900)\<rfloor> + 100)"
    by (simp add: Math_floor_def)
  then have "String_of (Math_floor (fl (u * 900)) + 100)
      = String_of_nat (nat (\<lfloor>fl (u * 900)\<rfloor> + 100))"
    unfolding String_of_def by (simp only: floor_of_int)
  also have "nat (\<lfloor>fl (u * 900)\<rfloor> + 100) = nat \<lfloor>fl (u * 900)\<rfloor> + 100" using nn by linarith
  finally have "randomTarget 3 u = String_of_nat (nat \<lfloor>fl (u * 900)\<rfloor> + 100)"
    by (simp add: randomTarget_def Let_def js_mul_def)
  with b show ?thesis by blast
qed

section \<open>Steps of the session\<close>

declare step.simps [simp del]

lemma closure_fields [simp]:
  "status (closure src w) = status (cur w)"
  "input (closure src w) = input (cur w)"
  "target (closure src w) = target (cur w)"
  "level (closure src w) = level (cur w)"
  "totalTrials (closure src w) = totalTrials (cur w)"
  "volume (closure src w) = volume (cur w)"
  "hadErrorThisTarget (closure src w) = hadErrorThisTarget (cur w)"
  by (cases src; simp add: closure_def)+

lemma closure_Click [simp]: "closure Click w = cur w"
  by (simp add: closure_def)

lemma commit_same [simp]: "commit (cur w) w = w"
  by (simp add: commit_def)

lemma cur_commit [simp]: "cur (commit p w) = cur w"
  and timers_commit [simp]: "timers (commit p w) = timers w"
  and out_commit [simp]: "out (commit p w) = out w"
  and ref_commit [simp]: "trialStartRef (commit p w) = trialStartRef w"
  by (simp_all add: commit_def)

lemma digit_step_ignored:
  assumes "status (cur w) \<noteq> Listening \<or> length (target (cur w)) \<le> length (input (cur w))"
  shows "step e (Digit src d) w = w"
  using assms by (auto simp: step.simps handleDigit_def)

lemma digit_step_input:
  assumes "status (cur w) = Listening" "length (input (cur w)) < length (target (cur w))"
    "d \<in> set digit_chars"
  shows "input (cur (step e (Digit src d) w)) = input (cur w) @ [d]"
  using assms by (simp add: step.simps handleDigit_def Let_def)

lemma listen_step:
  "step e (Listen src) w =
     (if target (cur w) = [] then w
      else w\<lparr>out := out w @ [Speak (speechTextForTarget (target (cur w)) (level (cur w)))
                              (max 0 (min 1 (volume (cur w))))]\<rparr>)"
  by (simp add: step.simps listen_def speak_def commit_def)

lemma run_listens: "cur (run w (map (\<lambda>p. (fst p, Listen (snd p))) ps)) = cur w"
  by (induction ps arbitrary: w) (simp_all add: listen_step)









lemma fire_results: "results (cur (fire t e w)) = results (cur w)"
  by (cases t) (simp_all add: startNextTrial_def speak_def Let_def)

lemma step_fire_results: "results (cur (step e (Fire i) w)) = results (cur w)"
  by (simp add: step.simps fire_results)

lemma digit_step_results:
  "results (cur (step e (Digit src d) w)) =
     (if status (cur w) = Listening \<and> Suc (length (input (cur w))) = length (target (cur w))
         \<and> d \<in> set digit_chars
      then results (cur w) @
             [\<lparr>r_target = target (cur w), r_response = input (cur w) @ [d],
               r_correct = (input (cur w) @ [d] = target (cur w)),
               r_timeMs = now e - (case trialStartRef w of Some t \<Rightarrow> t | None \<Rightarrow> now e)\<rparr>]
      else results (cur w))"
  by (auto simp add: step.simps handleDigit_def Let_def)

text \<open>
  Next from the button counts from the current number of trials; Next from the keyboard
  counts from the number the listener captured.
\<close>

lemma next_click_starts_trial:
  assumes "trialIdx (cur w) < totalTrials (cur w)" "status (cur w) \<noteq> Complete"
  shows "cur (step e (Next Click) w) =
           (cur w)\<lparr>trialIdx := trialIdx (cur w) + 1,
                   target := randomTarget (level (cur w)) (random e), input := [],
                   status := Listening, showHint := False, hadErrorThisTarget := False\<rparr>"
    and "out (step e (Next Click) w) =
           out w @ [Speak (speechTextForTarget (randomTarget (level (cur w)) (random e)) (level (cur w)))
                      (max 0 (min 1 (volume (cur w))))]"
    and "timers (step e (Next Click) w) = timers w"
  using assms by (simp_all add: step.simps startNextTrial_def speak_def Let_def)

lemma next_key_starts_trial:
  assumes "keyIdx w < totalTrials (cur w)"
  shows "cur (step e (Next Key) w) =
           (cur w)\<lparr>trialIdx := keyIdx w + 1,
                   target := randomTarget (level (cur w)) (random e), input := [],
                   status := Listening, showHint := False, hadErrorThisTarget := False\<rparr>"
  using assms by (simp add: step.simps startNextTrial_def speak_def Let_def closure_def)

section \<open>The claims\<close>

text \<open>
  Claim C1. For every integer \<open>n\<close> from 0 to 999, \<^verbatim>\<open>toWords(n)\<close> returns the words the
  specification's algorithm gives: the literal word below 20; from 20 to 99 the tens word
  and, when the remainder is not zero, a space and the ones word; from 100 on the
  hundreds word and "hundred", then nothing, or "and" with the ones word, or "and" with
  the tens word and a ones word when a units digit remains. The entries of the
  specification's oracle table are the further conjuncts.
\<close>

theorem toWords_matches_spec:
  "(\<forall>n::int. 0 \<le> n \<and> n \<le> 999 \<longrightarrow> toWords (of_int n) = Words (spec_verbalize (nat n)))
   \<and> toWords 0 = Words ''zero''
   \<and> toWords 19 = Words ''nineteen''
   \<and> toWords 21 = Words ''twenty one''
   \<and> toWords 100 = Words ''one hundred''
   \<and> toWords 101 = Words ''one hundred and one''
   \<and> toWords 110 = Words ''one hundred and ten''
   \<and> toWords 219 = Words ''two hundred and nineteen''
   \<and> toWords 305 = Words ''three hundred and five''
   \<and> toWords 340 = Words ''three hundred and forty''
   \<and> toWords 400 = Words ''four hundred''
   \<and> toWords 999 = Words ''nine hundred and ninety nine''"
proof -
  have gen: "toWords (of_int n) = Words (spec_verbalize (nat n))" if "0 \<le> n" "n \<le> 999" for n :: int
  proof -
    have "nat n \<le> 999" using that by simp
    from toWords_nat[OF this] show ?thesis using that by simp
  qed
  have ex: "toWords (of_nat m) = Words w" if "m \<le> 999" "spec_verbalize m = w" for m w
    using toWords_nat[OF that(1)] that(2) by simp
  have sv: "spec_verbalize 0 = ''zero''" "spec_verbalize 19 = ''nineteen''"
    "spec_verbalize 21 = ''twenty one''" "spec_verbalize 100 = ''one hundred''"
    "spec_verbalize 101 = ''one hundred and one''" "spec_verbalize 110 = ''one hundred and ten''"
    "spec_verbalize 219 = ''two hundred and nineteen''"
    "spec_verbalize 305 = ''three hundred and five''"
    "spec_verbalize 340 = ''three hundred and forty''"
    "spec_verbalize 400 = ''four hundred''"
    "spec_verbalize 999 = ''nine hundred and ninety nine''"
    by (simp_all add: spec_verbalize_def spec_ones_def spec_tens_def)
  show ?thesis
    using gen ex[of 0, OF _ sv(1)] ex[of 19, OF _ sv(2)] ex[of 21, OF _ sv(3)]
      ex[of 100, OF _ sv(4)] ex[of 101, OF _ sv(5)] ex[of 110, OF _ sv(6)]
      ex[of 219, OF _ sv(7)] ex[of 305, OF _ sv(8)] ex[of 340, OF _ sv(9)]
      ex[of 400, OF _ sv(10)] ex[of 999, OF _ sv(11)]
    by simp
qed

theorem toWords_matches_spec_witness:
  "(0::int) \<le> 43 \<and> (43::int) \<le> 999 \<and> toWords (of_int 43) = Words ''forty three''"
  using toWords_matches_spec[THEN conjunct1, THEN spec, of 43]
  by (simp add: spec_verbalize_def spec_tens_def spec_ones_def)

text \<open>
  Claim C10. For every integer \<open>n\<close> from 0 to 999, every table read \<^verbatim>\<open>toWords(n)\<close>
  performs is inside its table, the result is not the stringified number of the fallback
  branch and not \<^verbatim>\<open>undefined\<close>, and it is a string of at least one character. The range
  check alone does not give this: one half passes the range check, and its only read,
  \<^verbatim>\<open>ones[0.5]\<close>, misses.
\<close>

theorem toWords_reads_in_bounds:
  "(\<forall>n::int. 0 \<le> n \<and> n \<le> 999 \<longrightarrow>
       toWords_reads (of_int n) \<noteq> []
     \<and> (\<forall>rd \<in> set (toWords_reads (of_int n)). in_bounds rd)
     \<and> toWords (of_int n) \<noteq> NumberString (of_int n)
     \<and> toWords (of_int n) \<noteq> Undefined
     \<and> (\<exists>w. toWords (of_int n) = Words w \<and> w \<noteq> []))
   \<and> (0::rat) \<le> 1 / 2 \<and> (1 / 2 :: rat) \<le> 999
   \<and> toWords_reads (1 / 2) = [(ones, 1 / 2)]
   \<and> \<not> in_bounds (ones, 1 / 2)
   \<and> toWords (1 / 2) = Undefined"
proof -
  have gen: "toWords_reads (of_int n) \<noteq> []
     \<and> (\<forall>rd \<in> set (toWords_reads (of_int n)). in_bounds rd)
     \<and> toWords (of_int n) \<noteq> NumberString (of_int n)
     \<and> toWords (of_int n) \<noteq> Undefined
     \<and> (\<exists>w. toWords (of_int n) = Words w \<and> w \<noteq> [])" if "0 \<le> n" "n \<le> 999" for n :: int
  proof -
    have m: "nat n \<le> 999" and e: "of_int n = (of_nat (nat n) :: rat)" using that by simp_all
    show ?thesis
      unfolding e using toWords_reads_nat[OF m] toWords_nat[OF m] spec_verbalize_nonempty
      by simp
  qed
  have "\<lfloor>1 / 2 :: rat\<rfloor> = 0" by (rule floor_unique) simp_all
  then have half: "js_index ones (1 / 2) = None"
    by (simp add: js_index_def)
  have r1: "toWords_reads (1 / 2) = [(ones, 1 / 2)]" by (simp add: toWords_reads_def)
  have r2: "\<not> in_bounds (ones, 1 / 2)" by (simp add: in_bounds_def half)
  have r3: "toWords (1 / 2) = Undefined" by (simp add: toWords_def half ret_def)
  have p: "(0::rat) \<le> 1 / 2" "(1 / 2 :: rat) \<le> 999" by simp_all
  from gen p r1 r2 r3 show ?thesis by blast
qed

theorem toWords_reads_in_bounds_witness:
  "(0::int) \<le> 340 \<and> (340::int) \<le> 999
   \<and> toWords_reads 340 = [(ones, 3), (tens, 4)]
   \<and> in_bounds (ones, 3) \<and> in_bounds (tens, 4)
   \<and> toWords 340 \<noteq> Undefined"
proof -
  have r: "toWords_reads 340 = [(ones, 3), (tens, 4)]"
    by code_simp
  from toWords_reads_in_bounds[THEN conjunct1, THEN spec, of 340]
  have "\<forall>rd \<in> set (toWords_reads (of_int 340)). in_bounds rd"
    and "toWords (of_int 340) \<noteq> Undefined" by simp_all
  then show ?thesis using r by simp
qed

text \<open>
  Claim C6. For every value \<open>u\<close> of the random source, a double with \<open>0 \<le> u < 1\<close>, the
  generated target is the decimal string of an integer from 0 to 9 at level 1, from 10 to
  99 at level 2 and from 100 to 999 at level 3, the product with the range width being
  rounded as the machine rounds it. So the target has as many characters as the level,
  all of them digits, and at levels 2 and 3 the first one is not \<^verbatim>\<open>0\<close>.
\<close>

theorem randomTarget_range:
  assumes "is_double u" "0 \<le> u" "u < 1"
  shows "(\<exists>k. k \<le> 9 \<and> randomTarget 1 u = String_of_nat k \<and> Number_of (randomTarget 1 u) = k)
       \<and> (\<exists>k. 10 \<le> k \<and> k \<le> 99 \<and> randomTarget 2 u = String_of_nat k
              \<and> Number_of (randomTarget 2 u) = k)
       \<and> (\<exists>k. 100 \<le> k \<and> k \<le> 999 \<and> randomTarget 3 u = String_of_nat k
              \<and> Number_of (randomTarget 3 u) = k)
       \<and> length (randomTarget 1 u) = 1 \<and> length (randomTarget 2 u) = 2
       \<and> length (randomTarget 3 u) = 3
       \<and> hd (randomTarget 2 u) \<noteq> CHR ''0'' \<and> hd (randomTarget 3 u) \<noteq> CHR ''0''
       \<and> (\<forall>digits \<in> {1, 2, 3}. set (randomTarget digits u) \<subseteq> set digit_chars)"
proof -
  let ?k1 = "nat \<lfloor>fl (u * 10)\<rfloor>" and ?k2 = "nat \<lfloor>fl (u * 90)\<rfloor> + 10"
    and ?k3 = "nat \<lfloor>fl (u * 900)\<rfloor> + 100"
  note r1 = randomTarget_1[OF assms] and r2 = randomTarget_2[OF assms]
    and r3 = randomTarget_3[OF assms]
  have k2: "10 \<le> ?k2" "?k2 < 100" and k3: "100 \<le> ?k3" "?k3 < 1000" using r2 r3 by simp_all
  have d2: "?k2 div 10 < 10" "?k2 div 10 \<noteq> 0" using k2 by simp_all
  have d3: "?k3 div 100 < 10" "?k3 div 100 \<noteq> 0" using k3 by simp_all
  have h2: "hd (randomTarget 2 u) \<noteq> CHR ''0''"
    using r2 String_of_nat_2[OF k2] digit_char_cases[OF d2(1)] d2(2) by simp
  have h3: "hd (randomTarget 3 u) \<noteq> CHR ''0''"
    using r3 String_of_nat_3[OF k3] digit_char_cases[OF d3(1)] d3(2) by simp
  have l1: "length (randomTarget 1 u) = 1" using r1 by (simp add: String_of_nat_1)
  have l2: "length (randomTarget 2 u) = 2" using r2 String_of_nat_2[OF k2] by simp
  have l3: "length (randomTarget 3 u) = 3" using r3 String_of_nat_3[OF k3] by simp
  have s: "\<forall>digits \<in> {1, 2, 3}. set (randomTarget digits u) \<subseteq> set digit_chars"
    using r1 r2 r3 String_of_nat_digits by simp
  have e1: "\<exists>k. k \<le> 9 \<and> randomTarget 1 u = String_of_nat k \<and> Number_of (randomTarget 1 u) = k"
    using r1 Number_of_String_of_nat[of ?k1] by auto
  have e2: "\<exists>k. 10 \<le> k \<and> k \<le> 99 \<and> randomTarget 2 u = String_of_nat k
              \<and> Number_of (randomTarget 2 u) = k"
    using r2 k2 Number_of_String_of_nat[of ?k2] by auto
  have e3: "\<exists>k. 100 \<le> k \<and> k \<le> 999 \<and> randomTarget 3 u = String_of_nat k
              \<and> Number_of (randomTarget 3 u) = k"
    using r3 k3 Number_of_String_of_nat[of ?k3] by auto
  from e1 e2 e3 l1 l2 l3 h2 h3 s show ?thesis by blast
qed

theorem randomTarget_range_witness:
  "is_double double_0_3 \<and> 0 \<le> double_0_3 \<and> double_0_3 < 1
   \<and> randomTarget 1 double_0_3 = ''3'' \<and> randomTarget 2 double_0_3 = ''37''
   \<and> randomTarget 3 double_0_3 = ''370''
   \<and> length (randomTarget 3 double_0_3) = 3 \<and> hd (randomTarget 3 double_0_3) \<noteq> CHR ''0''"
proof -
  have d: "is_double double_0_3" by code_simp
  have a: "0 \<le> double_0_3" and b: "double_0_3 < 1" by (simp_all add: double_0_3_def)
  have v: "randomTarget 1 double_0_3 = ''3''" "randomTarget 2 double_0_3 = ''37''"
    "randomTarget 3 double_0_3 = ''370''" by code_simp+
  from randomTarget_range[OF d a b]
  have "length (randomTarget 3 double_0_3) = 3 \<and> hd (randomTarget 3 double_0_3) \<noteq> CHR ''0''"
    by blast
  with d a b v show ?thesis by blast
qed

text \<open>
  Claim C7. A digit event changes nothing at all when the status is not listening, or
  when the input already has the length of the target: the whole session stays as it
  was. Conversely a digit event that changes anything was received while listening with
  an input shorter than the target, and in that case the digit is appended to the input.
\<close>

theorem digit_ignored:
  "(status (cur w) \<noteq> Listening \<or> length (target (cur w)) \<le> length (input (cur w))
      \<longrightarrow> step e (Digit src d) w = w)
   \<and> (step e (Digit src d) w \<noteq> w
      \<longrightarrow> status (cur w) = Listening \<and> length (input (cur w)) < length (target (cur w))
          \<and> d \<in> set digit_chars)
   \<and> (status (cur w) = Listening \<and> length (input (cur w)) < length (target (cur w))
        \<and> d \<in> set digit_chars
      \<longrightarrow> input (cur (step e (Digit src d) w)) = input (cur w) @ [d])"
proof (intro conjI impI)
  assume "status (cur w) \<noteq> Listening \<or> length (target (cur w)) \<le> length (input (cur w))"
  then show "step e (Digit src d) w = w" by (rule digit_step_ignored)
next
  assume ne: "step e (Digit src d) w \<noteq> w"
  then show "status (cur w) = Listening" using digit_step_ignored[of w e src d] by blast
  show "length (input (cur w)) < length (target (cur w))"
    using ne digit_step_ignored[of w e src d] by (meson not_le)
  show "d \<in> set digit_chars" using ne by (cases "d \<in> set digit_chars") (simp_all add: step.simps)
next
  assume "status (cur w) = Listening \<and> length (input (cur w)) < length (target (cur w))
        \<and> d \<in> set digit_chars"
  then show "input (cur (step e (Digit src d) w)) = input (cur w) @ [d]"
    by (simp add: digit_step_input)
qed

theorem digit_ignored_witness:
  "status (cur idle_world) \<noteq> Listening
   \<and> step \<lparr>random = 0, now = 500\<rparr> (Digit Key CHR ''4'') idle_world = idle_world
   \<and> status (cur listening_47) = Listening
   \<and> length (input (cur listening_47)) < length (target (cur listening_47))
   \<and> CHR ''5'' \<in> set digit_chars
   \<and> input (cur (step \<lparr>random = 0, now = 3000\<rparr> (Digit Click CHR ''5'') listening_47)) = ''5''
   \<and> step \<lparr>random = 0, now = 3000\<rparr> (Digit Click CHR ''5'') listening_47 \<noteq> listening_47"
proof -
  have i: "status (cur idle_world) \<noteq> Listening" by code_simp
  have l1: "status (cur listening_47) = Listening" by code_simp
  have l2: "length (input (cur listening_47)) < length (target (cur listening_47))" by code_simp
  have l3: "CHR ''5'' \<in> set digit_chars" by code_simp
  have l4: "input (cur listening_47) = []" by code_simp
  note ign = digit_ignored[of idle_world "\<lparr>random = 0, now = 500\<rparr>" Key "CHR ''4''",
      THEN conjunct1, rule_format]
  note app = digit_ignored[of listening_47 "\<lparr>random = 0, now = 3000\<rparr>" Click "CHR ''5''",
      THEN conjunct2, THEN conjunct2, rule_format]
  have 1: "step \<lparr>random = 0, now = 500\<rparr> (Digit Key CHR ''4'') idle_world = idle_world"
    by (rule ign) (rule disjI1, rule i)
  have "input (cur (step \<lparr>random = 0, now = 3000\<rparr> (Digit Click CHR ''5'') listening_47))
      = input (cur listening_47) @ [CHR ''5'']"
    by (rule app) (intro conjI l1 l2 l3)
  then have 2: "input (cur (step \<lparr>random = 0, now = 3000\<rparr> (Digit Click CHR ''5'') listening_47)) = ''5''"
    by (simp only: l4 append_Nil)
  have 3: "step \<lparr>random = 0, now = 3000\<rparr> (Digit Click CHR ''5'') listening_47 \<noteq> listening_47"
  proof
    assume "step \<lparr>random = 0, now = 3000\<rparr> (Digit Click CHR ''5'') listening_47 = listening_47"
    then have "input (cur (step \<lparr>random = 0, now = 3000\<rparr> (Digit Click CHR ''5'') listening_47))
      = input (cur listening_47)" by (rule arg_cong)
    with 2 l4 show False by simp
  qed
  from i l1 l2 l3 1 2 3 show ?thesis by (intro conjI)
qed

text \<open>
  Claim C8. When a target exists, replaying it only speaks its phrase: the session after
  the replay is the session before it with that one output added, so the current state
  (status, input, target, the number of trials started, the first-try score) is what it
  was, and it still is after any number of replays.
\<close>

theorem replay_frame:
  "(target (cur w) \<noteq> [] \<longrightarrow>
      step e (Listen src) w =
        w\<lparr>out := out w @ [Speak (speechTextForTarget (target (cur w)) (level (cur w)))
                               (max 0 (min 1 (volume (cur w))))]\<rparr>)
   \<and> cur (step e (Listen src) w) = cur w
   \<and> cur (run w (map (\<lambda>p. (fst p, Listen (snd p))) ps)) = cur w"
  by (simp add: listen_step run_listens)

theorem replay_frame_witness:
  "target (cur listening_47) \<noteq> []
   \<and> step \<lparr>random = 0, now = 2000\<rparr> (Listen Key) listening_47
       = listening_47\<lparr>out := out listening_47 @ [Speak (Words ''forty seven'') 1]\<rparr>
   \<and> cur (step \<lparr>random = 0, now = 2000\<rparr> (Listen Key) listening_47) = cur listening_47"
proof -
  have t: "target (cur listening_47) \<noteq> []" by code_simp
  have p: "Speak (speechTextForTarget (target (cur listening_47)) (level (cur listening_47)))
             (max 0 (min 1 (volume (cur listening_47)))) = Speak (Words ''forty seven'') 1"
    by code_simp
  from replay_frame[of listening_47 "\<lparr>random = 0, now = 2000\<rparr>" Key] t p
  show ?thesis by simp
qed



text \<open>
  Claim C3 says the record sequence holds exactly one record per target, however many
  wrong attempts were made on it. The program appends a record at every attempt that
  completes the length of the target, wrong ones included: in the session below one
  target was started, it was answered 57 and then 47, and two records name it.
\<close>

theorem retries_add_records:
  "trialIdx (cur (run initial retry_trace)) = 1
   \<and> map r_target (results (cur (run initial retry_trace))) = [''47'', ''47'']
   \<and> map r_response (results (cur (run initial retry_trace))) = [''57'', ''47'']
   \<and> map r_correct (results (cur (run initial retry_trace))) = [False, True]"
  by code_simp

text \<open>
  Claim C3, as amended: the record sequence holds one record per length-complete attempt.
  A digit event appends exactly one record, with the current target, the typed response
  and whether they are equal, when it completes the length of the target while listening;
  every other digit event, and every timer (the retry among them), leaves the records as
  they are.
\<close>

theorem one_record_per_attempt:
  "results (cur (step e (Digit src d) w)) =
     (if status (cur w) = Listening \<and> Suc (length (input (cur w))) = length (target (cur w))
         \<and> d \<in> set digit_chars
      then results (cur w) @
             [\<lparr>r_target = target (cur w), r_response = input (cur w) @ [d],
               r_correct = (input (cur w) @ [d] = target (cur w)),
               r_timeMs = now e - (case trialStartRef w of Some t \<Rightarrow> t | None \<Rightarrow> now e)\<rparr>]
      else results (cur w))
   \<and> results (cur (step e' (Fire i) w)) = results (cur w)"
  by (simp only: digit_step_results step_fire_results)

theorem one_record_per_attempt_witness:
  "status (cur typed_5) = Listening
   \<and> Suc (length (input (cur typed_5))) = length (target (cur typed_5))
   \<and> CHR ''7'' \<in> set digit_chars
   \<and> results (cur typed_5) = []
   \<and> map r_response (results (cur (step \<lparr>random = 0, now = 3400\<rparr> (Digit Click CHR ''7'') typed_5)))
       = [''57'']
   \<and> results (cur (step \<lparr>random = 0, now = 5400\<rparr> (Fire 0) wrong_57)) = results (cur wrong_57)"
proof -
  have h: "status (cur typed_5) = Listening"
    "Suc (length (input (cur typed_5))) = length (target (cur typed_5))"
    "CHR ''7'' \<in> set digit_chars" "results (cur typed_5) = []" "input (cur typed_5) = ''5''"
    by code_simp+
  from one_record_per_attempt[of "\<lparr>random = 0, now = 3400\<rparr>" Click "CHR ''7''" typed_5]
    one_record_per_attempt[of _ _ _ wrong_57 "\<lparr>random = 0, now = 5400\<rparr>" 0] h
  show ?thesis by simp
qed

text \<open>
  Claim C4. A reset or a change of configuration made while a delayed transition is
  pending is meant to leave nothing of the old session behind: \<^verbatim>\<open>resetAll\<close> and the
  level effect set the score, the records and the number of trials started back to zero,
  and the comments at lines 299 and 301 say that a change of level does not start a
  trial. Neither cancels the pending timers, and the callbacks still run on the values
  they captured. In the first session below an answer was correct, the Reset button was
  pressed half a second later and the new session started; the advance scheduled by the
  old answer then raises the score of the new session from 0 to 1 and replaces its
  target. In the second the level was changed to 3 instead; the session is idle until the
  old advance runs, which starts trial 2 with a score of 1 and a target of one digit.
\<close>

theorem reset_does_not_cancel:
  "status (cur after_reset) = Listening \<and> results (cur after_reset) = []
   \<and> score (cur after_reset) = 0 \<and> target (cur after_reset) = ''5''
   \<and> length (timers after_reset) = 1
   \<and> score (cur (step \<lparr>random = 3 / 4, now = 4000\<rparr> (Fire 0) after_reset)) = 1
   \<and> target (cur (step \<lparr>random = 3 / 4, now = 4000\<rparr> (Fire 0) after_reset)) = ''7''
   \<and> status (cur after_level_change) = Idle \<and> level (cur after_level_change) = 3
   \<and> trialIdx (cur after_level_change) = 0 \<and> score (cur after_level_change) = 0
   \<and> length (timers after_level_change) = 1
   \<and> status (cur (step \<lparr>random = 3 / 4, now = 4000\<rparr> (Fire 0) after_level_change)) = Listening
   \<and> trialIdx (cur (step \<lparr>random = 3 / 4, now = 4000\<rparr> (Fire 0) after_level_change)) = 2
   \<and> score (cur (step \<lparr>random = 3 / 4, now = 4000\<rparr> (Fire 0) after_level_change)) = 1
   \<and> target (cur (step \<lparr>random = 3 / 4, now = 4000\<rparr> (Fire 0) after_level_change)) = ''7''"
  by code_simp

text \<open>
  Claim C5. The number of trials started is meant never to exceed the total (the comment
  at line 214 gives its range as 0 to total), and both \<^verbatim>\<open>startNextTrial\<close> and the advance
  after a correct answer test for it. They test the values their closure captured. In
  the session below the total is 25, the eleventh target is answered correctly, and the
  total is changed to 10 before the advance runs: the advance still sees 11 of 25,
  starts a trial, and leaves the session listening with 12 trials started of 10.
\<close>

theorem trialIdx_exceeds_totalTrials:
  "status (cur (run initial (take 13 overrun_trace))) = Correct
   \<and> trialIdx (cur (run initial (take 13 overrun_trace))) = 11
   \<and> totalTrials (cur (run initial (take 13 overrun_trace))) = 25
   \<and> status (cur (run initial overrun_trace)) = Listening
   \<and> trialIdx (cur (run initial overrun_trace)) = 12
   \<and> totalTrials (cur (run initial overrun_trace)) = 10"
  by code_simp

text \<open>
  Claim C9. Next is accepted while listening and starts a fresh trial without a record
  for the abandoned target. From the button it always counts the new trial. From the
  keyboard it counts from the number of trials the listener captured, and the listener
  is not renewed when that number alone changes: after two presses of the key that drew
  the same target twice, a third press draws a new target and leaves the number of
  trials started at 2, where the button would make it 3.
\<close>

theorem key_next_stale:
  "status (cur stale_listener) = Listening \<and> input (cur stale_listener) = []
   \<and> trialIdx (cur stale_listener) = 2 \<and> totalTrials (cur stale_listener) = 10
   \<and> keyIdx stale_listener = 1
   \<and> trialIdx (cur (step \<lparr>random = 9 / 16, now = 3000\<rparr> (Next Key) stale_listener)) = 2
   \<and> target (cur (step \<lparr>random = 9 / 16, now = 3000\<rparr> (Next Key) stale_listener)) = ''5''
   \<and> trialIdx (cur (step \<lparr>random = 9 / 16, now = 3000\<rparr> (Next Click) stale_listener)) = 3"
  by code_simp

end
